theory Spec2Isabelle
  imports Complex_Main "HOL-Library.Word" "HOL-Library.Multiset"
begin

unbundle bit_operations_syntax

section \<open>Doubles and array statistics\<close>

text \<open>
  Outcomes that C leaves undefined are made explicit: a read or write outside the cells
  of a buffer is \<open>BufferOverrun\<close>, a store through \<open>NULL\<close> is \<open>NullWrite\<close>, an \<open>int\<close>
  computation that leaves the range of \<open>int\<close> is \<open>SignedOverflow\<close>. A failed \<open>assert\<close>
  on a size computation is \<open>AllocationOverflow\<close>.
\<close>

datatype fault = BufferOverrun | AllocationOverflow | NullWrite | SignedOverflow

text \<open>
  A C \<open>double\<close> is either \<open>NaN\<close> or a number. The comparisons \<open><\<close> and \<open>>\<close> are false
  as soon as one side is \<open>NaN\<close>, as IEEE 754 has it, and order the numbers otherwise.
  Where only comparisons are made the numbers come from any linear order; where the
  code computes, they are the reals, \<open>NaN\<close> is passed on by every operation, and
  rounding and overflow are not part of the model.
\<close>

datatype 'a dbl = NaN | Num 'a

fun dbl_gt :: "('a::linorder) dbl \<Rightarrow> 'a dbl \<Rightarrow> bool" where
  "dbl_gt (Num a) (Num b) = (a > b)"
| "dbl_gt _ _ = False"







text \<open>
  \<open>argmax_d(arr, n)\<close>. The array is the list of its readable cells, the count \<open>n\<close> is
  the C \<open>int\<close> passed beside it. The loop \<open>for (i=0; i<n; i++)\<close> is \<open>argmax_loop\<close>;
  every read \<open>arr[i]\<close>, \<open>arr[maxidx]\<close> outside the cells is a \<open>BufferOverrun\<close>.
\<close>

function argmax_loop :: "('a::linorder) dbl list \<Rightarrow> int \<Rightarrow> nat \<Rightarrow> nat \<Rightarrow> fault + int" where
  "argmax_loop arr n i maxidx =
     (if int i < n then
        (if i < length arr \<and> maxidx < length arr then
           argmax_loop arr n (Suc i) (if dbl_gt (arr ! i) (arr ! maxidx) then i else maxidx)
         else Inl BufferOverrun)
      else Inr (int maxidx))"
  by pat_completeness auto
termination
  by (relation "measure (\<lambda>(arr, n, i, maxidx). nat (n - int i))") auto

declare argmax_loop.simps [simp del]

definition argmax_d :: "('a::linorder) dbl list \<Rightarrow> int \<Rightarrow> fault + int" where
  "argmax_d arr n = argmax_loop arr n 0 0"








section \<open>The growable array of \<open>int\<close>: \<open>int_varray_t\<close>\<close>

text \<open>
  \<open>size_t\<close> and \<open>unsigned long\<close> are 64-bit words (LP64), \<open>int\<close> is a 32-bit word
  and \<open>sizeof(int)\<close> is 4. \<open>SIZE_MAX\<close> is \<open>(size_t)-1\<close>, as the file defines it.
\<close>

type_synonym size_t = "64 word"
type_synonym c_int = "32 word"

definition SIZE_MAX :: size_t where
  "SIZE_MAX = - 1"

definition sizeof_int :: size_t where
  "sizeof_int = 4"

text \<open>
  The struct \<open>int_varray_t\<close>, used here through its four fields (its declaration is in
  \<open>utils.h\<close>; the counters are taken to be \<open>size_t\<close>): \<open>n\<close> elements stored, the
  buffer \<open>data\<close>, the growth increment \<open>grow_by_size\<close> and the allocated size \<open>alloced\<close>, which the code keeps
  in bytes (it is compared with \<open>n * sizeof(int)\<close> and handed to \<open>realloc\<close>).
  The buffer is \<open>None\<close> for \<open>NULL\<close>, otherwise the list of its \<open>int\<close> cells.
\<close>

record int_varray =
  n :: size_t
  data :: "c_int list option"
  grow_by_size :: size_t
  alloced :: size_t

text \<open>The \<open>int\<close> cells a buffer holds; \<open>NULL\<close> holds none.\<close>

definition cells :: "c_int list option \<Rightarrow> c_int list" where
  "cells d = (case d of None \<Rightarrow> [] | Some xs \<Rightarrow> xs)"

text \<open>
  \<open>realloc(p, size)\<close>. \<open>realloc_ok\<close> says whether a request for that many bytes
  succeeds. When it fails the result is \<open>NULL\<close>. When it succeeds the new buffer has
  \<open>size div 4\<close> whole \<open>int\<close> cells, keeps the old contents up to the smaller of the two
  sizes, and its fresh cells, indeterminate in C, read as 0.
\<close>

definition realloc :: "(size_t \<Rightarrow> bool) \<Rightarrow> c_int list option \<Rightarrow> size_t \<Rightarrow> c_int list option" where
  "realloc realloc_ok p sz =
     (if realloc_ok sz
      then Some (take (unat sz div 4) (cells p) @ replicate (unat sz div 4 - length (cells p)) 0)
      else None)"

text \<open>Capacity in elements: the whole \<open>int\<close> cells that fit the allocated bytes.\<close>

definition capacity :: "int_varray \<Rightarrow> nat" where
  "capacity a = unat (alloced a) div 4"

text \<open>\<open>int_varray_free\<close>: \<open>free(a->data)\<close> (a no-op on \<open>NULL\<close>), then every field is zeroed.\<close>

definition int_varray_free :: "int_varray \<Rightarrow> int_varray" where
  "int_varray_free a = a\<lparr>data := None, n := 0, alloced := 0, grow_by_size := 0\<rparr>"

definition int_varray_init :: "int_varray \<Rightarrow> size_t \<Rightarrow> int_varray" where
  "int_varray_init a g = a\<lparr>n := 0, data := None, grow_by_size := g, alloced := 0\<rparr>"

text \<open>
  The last two statements of \<open>int_varray_add_value\<close>: \<open>a->data[a->n] = value; a->n++\<close>.
  The write needs cell \<open>n\<close> inside the buffer; past the buffer it is a
  \<open>BufferOverrun\<close>, and when \<open>data\<close> is \<open>NULL\<close> it is a \<open>NullWrite\<close>.
\<close>

definition store_value :: "int_varray \<Rightarrow> c_int \<Rightarrow> fault + int_varray" where
  "store_value a v =
     (case data a of
        None \<Rightarrow> Inl NullWrite
      | Some cs \<Rightarrow>
          (if unat (n a) < length cs
           then Inr (a\<lparr>data := Some (cs[unat (n a) := v]), n := n a + 1\<rparr>)
           else Inl BufferOverrun))"

text \<open>
  \<open>int_varray_add_value\<close>. Both \<open>assert\<close>s are the overflow checks; a failed one ends
  the call with \<open>AllocationOverflow\<close> before anything is reallocated. The result of
  \<open>realloc\<close> is stored in \<open>a->data\<close> untested, as in the source.
\<close>

definition int_varray_add_value ::
    "(size_t \<Rightarrow> bool) \<Rightarrow> int_varray \<Rightarrow> c_int \<Rightarrow> fault + int_varray" where
  "int_varray_add_value realloc_ok a v =
     (if n a * sizeof_int = alloced a then
        (if 1 \<ge> grow_by_size a then
           (if SIZE_MAX - alloced a > alloced a then
              (let size_to_alloc = (if 0 = n a then sizeof_int else alloced a * 2)
               in store_value (a\<lparr>data := realloc realloc_ok (data a) size_to_alloc,
                                alloced := size_to_alloc\<rparr>) v)
            else Inl AllocationOverflow)
         else
           (if SIZE_MAX - alloced a > grow_by_size a then
              (let size_to_alloc = alloced a + grow_by_size a
               in store_value (a\<lparr>data := realloc realloc_ok (data a) size_to_alloc,
                                alloced := size_to_alloc\<rparr>) v)
            else Inl AllocationOverflow))
      else store_value a v)"

text \<open>A sequence of appends, stopping at the first one that fails.\<close>

fun int_varray_add_values ::
    "(size_t \<Rightarrow> bool) \<Rightarrow> int_varray \<Rightarrow> c_int list \<Rightarrow> fault + int_varray" where
  "int_varray_add_values realloc_ok a [] = Inr a"
| "int_varray_add_values realloc_ok a (v # vs) =
     (case int_varray_add_value realloc_ok a v of
        Inl e \<Rightarrow> Inl e
      | Inr a' \<Rightarrow> int_varray_add_values realloc_ok a' vs)"

text \<open>
  The quantities the overflow checks are about. \<open>needs_growth\<close> is the test that
  guards the reallocation; \<open>next_size\<close> is the size in bytes the reallocation asks
  for, computed in the natural numbers, that is without the wrap-around of \<open>size_t\<close>.
\<close>

definition needs_growth :: "int_varray \<Rightarrow> bool" where
  "needs_growth a = (n a * sizeof_int = alloced a)"

definition next_size :: "int_varray \<Rightarrow> nat" where
  "next_size a =
     (if 1 \<ge> grow_by_size a then (if 0 = n a then 4 else unat (alloced a) * 2)
      else unat (alloced a) + unat (grow_by_size a))"

text \<open>
  The state of an array that holds the values \<open>vs\<close>: \<open>n\<close> counts them, the buffer has
  as many cells as the allocated bytes give, the allocated size is a whole number of
  \<open>int\<close>s, and the first \<open>n\<close> cells are \<open>vs\<close>.
\<close>

definition holds_values :: "int_varray \<Rightarrow> c_int list \<Rightarrow> bool" where
  "holds_values a vs =
     (unat (n a) = length vs \<and> length (cells (data a)) = capacity a \<and>
      4 dvd unat (alloced a) \<and> length vs \<le> capacity a \<and>
      take (length vs) (cells (data a)) = vs)"

section \<open>File probes and file loading\<close>

text \<open>
  \<open>mode_t\<close> and the file-type bits of \<open>sys/stat.h\<close>, with their Linux values
  (octal 0170000, 0040000, 0060000, 0140000, 0100000). \<open>S_ISDIR\<close> is the header's test
  for a directory.
\<close>

type_synonym mode_t = "32 word"

definition S_IFMT :: mode_t where "S_IFMT = 61440"
definition S_IFDIR :: mode_t where "S_IFDIR = 16384"
definition S_IFBLK :: mode_t where "S_IFBLK = 24576"
definition S_IFSOCK :: mode_t where "S_IFSOCK = 49152"
definition S_IFREG :: mode_t where "S_IFREG = 32768"

definition S_ISDIR :: "mode_t \<Rightarrow> bool" where
  "S_ISDIR m = (m AND S_IFMT = S_IFDIR)"

text \<open>
  \<open>is_dir(path)\<close>. The call \<open>stat(path, &s)\<close> is the function \<open>stat\<close>: \<open>None\<close> when it
  fails, otherwise the \<open>st_mode\<close> it fills in.
\<close>

definition is_dir :: "(string \<Rightarrow> mode_t option) \<Rightarrow> string \<Rightarrow> int" where
  "is_dir stat path =
     (case stat path of
        Some st_mode \<Rightarrow> (if st_mode AND S_IFDIR \<noteq> 0 then 1 else 0)
      | None \<Rightarrow> 0)"

definition INT_MAX :: int where
  "INT_MAX = 2147483647"

text \<open>
  \<open>ae_load_file_to_memory(filename, result)\<close>. The environment of a call:
  \<open>fopen\<close> gives the bytes of a file that can be opened, \<open>malloc_ok\<close> says whether an
  allocation of that many bytes succeeds, \<open>fread\<close> says how many of the bytes asked for
  a read delivers. \<open>result_null\<close> tells whether the out-parameter \<open>result\<close> itself is
  \<open>NULL\<close>; the stores \<open>*result = NULL\<close> and \<open>*result = malloc(size+1)\<close> go through
  it, and the test \<open>NULL==result\<close> comes after the second.

  \<open>ftell\<close> reports the file length as a \<open>long\<close>, or -1 when the length does not
  fit one; \<open>size\<close> is an \<open>int\<close>, that report cut to 32 bits. The
  sum \<open>size+1\<close> overflows for \<open>INT_MAX\<close>; the arguments of \<open>malloc\<close> and \<open>fread\<close> and
  the comparison with the result of \<open>fread\<close> convert \<open>size\<close> to \<open>size_t\<close>. When the
  buffer is \<open>NULL\<close>, a read that delivers bytes stores them through \<open>NULL\<close>; a read
  that delivers none stores nothing.

  The outcome is a return value together with what \<open>*result\<close> points to and whether the
  file is still open, or a \<open>Segfault\<close> for a store through \<open>NULL\<close>, or \<open>IntOverflow\<close>.
\<close>

type_synonym byte = "8 word"

definition ftell :: "byte list \<Rightarrow> int" where
  "ftell content = (if length content < 2 ^ 63 then int (length content) else - 1)"

datatype heap_ref = NullPtr | Live "byte list" | Dangling

datatype load_outcome = Segfault | Returns int heap_ref bool | IntOverflow

definition ae_load_file_to_memory ::
    "(string \<Rightarrow> byte list option) \<Rightarrow> (nat \<Rightarrow> bool) \<Rightarrow> (nat \<Rightarrow> nat) \<Rightarrow> bool \<Rightarrow> string
       \<Rightarrow> load_outcome" where
  "ae_load_file_to_memory fopen malloc_ok fread result_null filename =
     (case fopen filename of
        None \<Rightarrow> (if result_null then Segfault else Returns (- 1) NullPtr False)
      | Some content \<Rightarrow>
          (let size = sint (word_of_int (ftell content) :: 32 word) in
           if size = INT_MAX then IntOverflow
           else if result_null then Segfault
           else
             (let bytes = nat ((size + 1) mod 2 ^ 64);
                  buf = (if malloc_ok bytes then Live (replicate bytes 0) else NullPtr);
                  count = nat (size mod 2 ^ 64);
                  got = min (min count (length content)) (fread count)
              in if result_null then Returns (- 2) buf True
                 else
                   (case buf of
                      Live _ \<Rightarrow>
                        (if count \<noteq> got then Returns (- 3) Dangling True
                         else Returns size (Live (take got content @ [0])) False)
                    | _ \<Rightarrow>
                        (if 0 < got then Segfault
                         else if count \<noteq> got then Returns (- 3) NullPtr True
                         else Segfault)))))"

section \<open>Symbolic links\<close>

text \<open>
  The system call \<open>readlink(filename, buffer, size)\<close>, after POSIX. The file system is
  the map from the path of a symbolic link to its target; a path that is no link makes
  the call fail. A buffer is \<open>None\<close> for \<open>NULL\<close>, otherwise its bytes. The call copies
  at most \<open>size\<close> bytes of the target and returns their number; copying to \<open>NULL\<close> is
  the error \<open>EFAULT\<close> (return value -1), and copying more bytes than the buffer has is a
  write past its end, the result \<open>None\<close>.
\<close>

definition readlink ::
    "(string \<Rightarrow> string option) \<Rightarrow> string \<Rightarrow> string option \<Rightarrow> nat \<Rightarrow> (int \<times> string option) option" where
  "readlink fs filename buffer size' =
     (case fs filename of
        None \<Rightarrow> Some (- 1, buffer)
      | Some target \<Rightarrow>
          (let k = min (length target) size' in
           case buffer of
             None \<Rightarrow> (if k = 0 then Some (0, None) else Some (- 1, None))
           | Some bytes \<Rightarrow>
               (if k \<le> length bytes then Some (int k, Some (take k target @ drop k bytes))
                else None)))"

text \<open>\<open>realloc\<close> on bytes, taken to succeed; fresh bytes read as 0.\<close>

definition realloc_bytes :: "string option \<Rightarrow> nat \<Rightarrow> string" where
  "realloc_bytes p sz =
     (case p of
        None \<Rightarrow> replicate sz (CHR 0x00)
      | Some bytes \<Rightarrow> take sz bytes @ replicate (sz - length bytes) (CHR 0x00))"

text \<open>
  \<open>readlink_malloc(filename)\<close>: the \<open>while (1)\<close> loop with its variables \<open>buffer\<close> and
  \<open>size\<close>. Each round calls \<open>readlink\<close> on the buffer as it is and reallocates the
  buffer to \<open>size\<close> afterwards, in the order of the source. A run that does not end is
  the value \<open>None\<close>.
\<close>

datatype readlink_result = ReturnsNull | ReturnsBuffer string | WritesPastBuffer | SizeOverflow

partial_function (option) readlink_loop ::
    "(string \<Rightarrow> string option) \<Rightarrow> string \<Rightarrow> string option \<Rightarrow> int \<Rightarrow> readlink_result option" where
  "readlink_loop fs filename buffer size' =
     (case readlink fs filename buffer (nat size') of
        None \<Rightarrow> Some WritesPastBuffer
      | Some (nchars, written) \<Rightarrow>
          (let buffer' = realloc_bytes written (nat size') in
           if nchars < 0 then Some ReturnsNull
           else if nchars < size' then Some (ReturnsBuffer buffer')
           else if size' * 2 > INT_MAX then Some SizeOverflow
           else readlink_loop fs filename (Some buffer') (size' * 2)))"

definition readlink_malloc :: "(string \<Rightarrow> string option) \<Rightarrow> string \<Rightarrow> readlink_result option" where
  "readlink_malloc fs filename = readlink_loop fs filename None 100"

text \<open>
  \<open>resolved_path(path)\<close>. The process state it changes is the working directory, a
  string. The calls it makes to the system are the fields of \<open>os_calls\<close>, each a
  function of the working directory at the time of the call and of the argument:
  \<open>getcwd\<close> gives the name of the working directory or fails; \<open>lstat\<close> fails or tells
  whether the path is a symbolic link (\<open>S_ISLNK\<close>); \<open>symlinks\<close> gives the target of a
  symbolic link, a non-empty string kept as its first character and the rest
  (\<open>symlink\<close> refuses an empty target); \<open>chdir\<close> fails or gives the new working
  directory; \<open>realpath\<close> fails or gives the canonical path; \<open>dirname\<close> is the function
  of \<open>libgen.h\<close>. The call \<open>readlink_malloc(resolved_path)\<close> is the function
  \<open>readlink_malloc\<close> above, run on the links as seen from the working directory.

  The outcome of a call is the returned path (\<open>None\<close> for \<open>NULL\<close>), the working directory
  it leaves, and the messages given to \<open>LOG_ERROR\<close>; or the fault of
  \<open>readlink_malloc\<close>. A loop that does not end is the value \<open>None\<close>.
\<close>

record os_calls =
  getcwd :: "string \<Rightarrow> string option"
  lstat :: "string \<Rightarrow> string \<Rightarrow> bool option"
  symlinks :: "string \<Rightarrow> string \<Rightarrow> (char \<times> string) option"
  chdir :: "string \<Rightarrow> string \<Rightarrow> string option"
  realpath :: "string \<Rightarrow> string \<Rightarrow> string option"
  dirname :: "string \<Rightarrow> string"

definition link_targets :: "os_calls \<Rightarrow> string \<Rightarrow> string \<Rightarrow> string option" where
  "link_targets os cwd p = (case symlinks os cwd p of None \<Rightarrow> None | Some (c, cs) \<Rightarrow> Some (c # cs))"

text \<open>The C string a buffer holds: its bytes up to the first 0.\<close>

definition c_string :: "string \<Rightarrow> string" where
  "c_string buffer = takeWhile (\<lambda>c. c \<noteq> CHR 0x00) buffer"

type_synonym resolved = "string option \<times> string \<times> string list"

text \<open>The label \<open>chdir_and_return\<close>: change back to \<open>orig_wd\<close>, log a failure, return.\<close>

definition chdir_and_return ::
    "os_calls \<Rightarrow> string \<Rightarrow> string \<Rightarrow> string list \<Rightarrow> string option \<Rightarrow> resolved" where
  "chdir_and_return os orig_wd cwd msgs resolved_path =
     (case chdir os cwd orig_wd of
        None \<Rightarrow> (resolved_path, cwd, msgs @ [''chdir() failed. Trying to continue...''])
      | Some wd \<Rightarrow> (resolved_path, wd, msgs))"

partial_function (option) resolve_loop ::
    "os_calls \<Rightarrow> string \<Rightarrow> string \<Rightarrow> string list \<Rightarrow> string \<Rightarrow> (fault + resolved) option" where
  "resolve_loop os orig_wd cwd msgs resolved_path =
     (case lstat os cwd resolved_path of
        None \<Rightarrow> Some (Inr (chdir_and_return os orig_wd cwd (msgs @ [''lstat() failed'']) None))
      | Some is_lnk \<Rightarrow>
          (if \<not> is_lnk
           then Some (Inr (chdir_and_return os orig_wd cwd msgs (Some resolved_path)))
           else
             (case readlink_malloc (link_targets os cwd) resolved_path of
                None \<Rightarrow> None
              | Some r \<Rightarrow>
                  (case r of
                     ReturnsNull \<Rightarrow>
                       Some (Inr (chdir_and_return os orig_wd cwd
                                    (msgs @ [''readlink() failed.'']) None))
                   | WritesPastBuffer \<Rightarrow> Some (Inl BufferOverrun)
                   | SizeOverflow \<Rightarrow> Some (Inl SignedOverflow)
                   | ReturnsBuffer buffer \<Rightarrow>
                       (let tmp_path = c_string buffer in
                        case chdir os cwd (dirname os resolved_path) of
                          None \<Rightarrow> Some (Inr (None, cwd, msgs @ [''chdir() failed.'']))
                        | Some wd \<Rightarrow>
                            (case realpath os wd tmp_path of
                               None \<Rightarrow>
                                 Some (Inr (chdir_and_return os orig_wd wd
                                              (msgs @ [''realpath failed on '' @ tmp_path]) None))
                             | Some realpath_buf \<Rightarrow>
                                 resolve_loop os orig_wd wd msgs realpath_buf))))))"

definition resolved_path :: "os_calls \<Rightarrow> string \<Rightarrow> string \<Rightarrow> (fault + resolved) option" where
  "resolved_path os cwd path =
     (case getcwd os cwd of
        None \<Rightarrow> Some (Inr (None, cwd, []))
      | Some orig_wd \<Rightarrow> resolve_loop os orig_wd cwd [] path)"

text \<open>
  An environment: the process is in \<open>/home\<close>; \<open>/a/l1\<close> is a symbolic link with the
  target \<open>f\<close>, the regular file \<open>/a/f\<close>; the directories \<open>/a\<close> and \<open>/home\<close> can be
  entered.
\<close>

definition one_link :: os_calls where
  "one_link =
     \<lparr>getcwd = (\<lambda>cwd. Some cwd),
      lstat = (\<lambda>cwd p. if p = ''/a/l1'' then Some True else if p = ''/a/f'' then Some False
                else None),
      symlinks = (\<lambda>cwd p. if p = ''/a/l1'' then Some (CHR ''f'', []) else None),
      chdir = (\<lambda>cwd d. if d = ''/a'' \<or> d = ''/home'' then Some d else None),
      realpath = (\<lambda>cwd p. if cwd = ''/a'' \<and> p = ''f'' then Some ''/a/f'' else None),
      dirname = (\<lambda>p. if p = ''/a/l1'' \<or> p = ''/a/f'' then ''/a'' else ''.'')\<rparr>"

section \<open>Properties of \<open>argmax_d\<close>\<close>

text \<open>
  The loop invariant on an array of numbers: \<open>maxidx\<close> holds the first position of the
  greatest element among the cells scanned so far.
\<close>

lemma argmax_loop_first_max:
  assumes "m < length vs" and "i \<le> length vs"
    and "\<forall>j<i. vs ! j \<le> vs ! m" and "\<forall>j<m. vs ! j < vs ! m"
  shows "\<exists>k. argmax_loop (map Num vs) (int (length vs)) i m = Inr (int k) \<and> k < length vs
           \<and> (\<forall>j<length vs. vs ! j \<le> vs ! k) \<and> (\<forall>j<k. vs ! j < vs ! k)"
  using assms
proof (induction "length vs - i" arbitrary: i m)
  case 0
  then have "i = length vs" by simp
  with 0 show ?case by (subst argmax_loop.simps) auto
next
  case (Suc d)
  then have lt: "i < length vs" by simp
  let ?m = "if vs ! i > vs ! m then i else m"
  have 1: "?m < length vs" using lt Suc.prems(1) by simp
  have 2: "\<forall>j<Suc i. vs ! j \<le> vs ! ?m"
    using Suc.prems(3) by (auto simp: less_Suc_eq intro: less_imp_le order_trans)
  have 3: "\<forall>j<?m. vs ! j < vs ! ?m"
    using Suc.prems(3,4) by (auto intro: le_less_trans)
  have "d = length vs - Suc i" using Suc.hyps(2) by simp
  from Suc.hyps(1)[OF this 1 _ 2 3] lt
  obtain k where "argmax_loop (map Num vs) (int (length vs)) (Suc i) ?m = Inr (int k)"
    "k < length vs" "(\<forall>j<length vs. vs ! j \<le> vs ! k)" "(\<forall>j<k. vs ! j < vs ! k)" by auto
  then show ?case using lt Suc.prems(1) by (subst argmax_loop.simps) auto
qed

text \<open>The index stays below the count, whatever the cells hold.\<close>

lemma argmax_loop_range:
  assumes "cnt \<le> int (length arr)" and "int m < cnt" and "m \<le> i"
  shows "\<exists>k. argmax_loop arr cnt i m = Inr k \<and> 0 \<le> k \<and> k \<le> cnt - 1"
  using assms
proof (induction "nat cnt - i" arbitrary: i m)
  case 0
  then have "\<not> int i < cnt" by simp
  with 0 show ?case by (subst argmax_loop.simps) auto
next
  case (Suc d)
  then have lt: "int i < cnt" by linarith
  let ?m = "if dbl_gt (arr ! i) (arr ! m) then i else m"
  have a: "i < length arr" "m < length arr" using lt Suc.prems by auto
  have "d = nat cnt - Suc i" using Suc.hyps(2) by simp
  from Suc.hyps(1)[OF this Suc.prems(1), of ?m] lt Suc.prems
  have "\<exists>k. argmax_loop arr cnt (Suc i) ?m = Inr k \<and> 0 \<le> k \<and> k \<le> cnt - 1" by auto
  then show ?case using lt a by (subst argmax_loop.simps) auto
qed

lemma argmax_d_nonpos: "cnt \<le> 0 \<Longrightarrow> argmax_d arr cnt = Inr 0"
  by (simp add: argmax_d_def argmax_loop.simps)

text \<open>
  Claim C8, as amended. For a non-empty array of doubles none of which is \<open>NaN\<close>,
  scanned in full, \<open>argmax_d\<close> returns an index of the maximum value, and no earlier cell
  holds that value: on ties it is the lowest index. In particular
  \<open>argmax([3,1,4,1,5]) = 4\<close> and \<open>argmax([2,2]) = 0\<close>.
\<close>

theorem argmax_d_first_maximum:
  "(vs \<noteq> [] \<longrightarrow>
      (\<exists>k. argmax_d (map Num vs) (int (length vs)) = Inr (int k) \<and> k < length vs
         \<and> vs ! k = Max (set vs) \<and> (\<forall>j<k. vs ! j < vs ! k)))
   \<and> argmax_d [Num 3, Num 1, Num 4, Num 1, Num (5 :: real)] 5 = Inr 4
   \<and> argmax_d [Num 2, Num (2 :: real)] 2 = Inr 0"
proof (intro conjI impI)
  assume ne: "vs \<noteq> []"
  then have "0 < length vs" by simp
  from argmax_loop_first_max[OF this, of 0]
  obtain k where k: "argmax_loop (map Num vs) (int (length vs)) 0 0 = Inr (int k)"
    "k < length vs" "\<forall>j<length vs. vs ! j \<le> vs ! k" "\<forall>j<k. vs ! j < vs ! k" by auto
  have "vs ! k = Max (set vs)"
  proof (rule sym, rule Max_eqI)
    show "finite (set vs)" by simp
    show "vs ! k \<in> set vs" using k(2) by simp
    fix y assume "y \<in> set vs"
    then obtain j where "j < length vs" "y = vs ! j" by (auto simp: in_set_conv_nth)
    with k(3) show "y \<le> vs ! k" by simp
  qed
  with k show "\<exists>k. argmax_d (map Num vs) (int (length vs)) = Inr (int k) \<and> k < length vs
         \<and> vs ! k = Max (set vs) \<and> (\<forall>j<k. vs ! j < vs ! k)"
    unfolding argmax_d_def by blast
next
  show "argmax_d [Num 3, Num 1, Num 4, Num 1, Num (5 :: real)] 5 = Inr 4"
    by (simp add: argmax_d_def argmax_loop.simps)
next
  show "argmax_d [Num 2, Num (2 :: real)] 2 = Inr 0"
    by (simp add: argmax_d_def argmax_loop.simps)
qed

text \<open>On \<open>[1, 7, 7]\<close> the maximum 7 is found at index 1, the first of its two places.\<close>

theorem argmax_d_first_maximum_witness:
  "[1, 7, 7 :: real] \<noteq> [] \<and>
   (\<exists>k. argmax_d [Num 1, Num 7, Num (7 :: real)] 3 = Inr (int k) \<and> k < 3
         \<and> [1, 7, 7 :: real] ! k = 7 \<and> (\<forall>j<k. [1, 7, 7 :: real] ! j < 7))"
proof -
  have ne: "[1, 7, 7 :: real] \<noteq> []" by simp
  have mx: "Max (set [1, 7, 7 :: real]) = 7" by simp
  have len: "length [1, 7, 7 :: real] = 3" by simp
  have mp: "map Num [1, 7, 7 :: real] = [Num 1, Num 7, Num 7]" by simp
  from argmax_d_first_maximum[of "[1, 7, 7 :: real]"] ne
  obtain k where k1: "argmax_d (map Num [1, 7, 7 :: real]) (int (length [1, 7, 7 :: real]))
        = Inr (int k)"
    and k2: "k < length [1, 7, 7 :: real]"
    and k3: "[1, 7, 7 :: real] ! k = Max (set [1, 7, 7 :: real])"
    and k4: "\<forall>j<k. [1, 7, 7 :: real] ! j < [1, 7, 7 :: real] ! k" by blast
  have k3': "[1, 7, 7 :: real] ! k = 7" using k3 by (simp only: mx)
  have k4': "\<forall>j<k. [1, 7, 7 :: real] ! j < 7" using k4 by (simp only: k3')
  have k1': "argmax_d [Num 1, Num 7, Num (7 :: real)] 3 = Inr (int k)"
    using k1 by (simp only: len of_nat_numeral mp)
  have k2': "k < 3" using k2 by (simp only: len)
  from ne k1' k2' k3' k4' show ?thesis by blast
qed

text \<open>
  The claim as stated, for every array of doubles, fails when the array holds a \<open>NaN\<close>:
  no cell compares greater than a \<open>NaN\<close> in cell 0, so on \<open>[NaN, 1, 2]\<close> the result is
  index 0, a cell that does not hold the maximum 2 of the array.
\<close>

theorem argmax_d_nan_counterexample:
  "argmax_d [NaN, Num 1, Num (2 :: real)] 3 = Inr 0
   \<and> [NaN, Num 1, Num (2 :: real)] ! 0 = NaN
   \<and> dbl_gt ([NaN, Num 1, Num (2 :: real)] ! 2) ([NaN, Num 1, Num (2 :: real)] ! 1)"
  by (simp add: argmax_d_def argmax_loop.simps)

text \<open>
  Claim C10. With \<open>n = 0\<close> the result is index 0 and no cell is read: the call returns
  0 on every array, also on the array with no readable cell, where any read would be a
  \<open>BufferOverrun\<close>. With \<open>n \<ge> 1\<close> (and \<open>n\<close> cells to read) the returned index lies
  between 0 and \<open>n - 1\<close>, whether or not the cells hold \<open>NaN\<close>.
\<close>

theorem argmax_d_index_range:
  "argmax_d arr 0 = Inr 0 \<and> argmax_d ([] :: 'a::linorder dbl list) 0 = Inr 0 \<and>
   (1 \<le> cnt \<and> cnt \<le> int (length arr) \<longrightarrow>
      (\<exists>k. argmax_d arr cnt = Inr k \<and> 0 \<le> k \<and> k \<le> cnt - 1))"
  using argmax_loop_range[of cnt arr 0 0] argmax_d_nonpos[of 0 arr]
    argmax_d_nonpos[of 0 "[] :: 'a dbl list"]
  by (auto simp: argmax_d_def)

theorem argmax_d_index_range_witness:
  "(1::int) \<le> 3 \<and> (3::int) \<le> int (length [Num 5, NaN, Num (2 :: real)]) \<and>
   (\<exists>k. argmax_d [Num 5, NaN, Num (2 :: real)] 3 = Inr k \<and> 0 \<le> k \<and> k \<le> 3 - 1)"
proof -
  have h: "(1::int) \<le> 3 \<and> (3::int) \<le> int (length [Num 5, NaN, Num (2 :: real)])" by simp
  with argmax_d_index_range[of "[Num 5, NaN, Num (2 :: real)]" 3]
  have "\<exists>k. argmax_d [Num 5, NaN, Num (2 :: real)] 3 = Inr k \<and> 0 \<le> k \<and> k \<le> 3 - 1"
    by blast
  with h show ?thesis by blast
qed

section \<open>Properties of \<open>dbl_median\<close>\<close>












section \<open>Properties of the growable array\<close>

subsection \<open>Arithmetic of \<open>size_t\<close>\<close>

lemma unat_SIZE_MAX: "unat SIZE_MAX = 2 ^ 64 - 1"
  by (simp add: SIZE_MAX_def unsigned_minus_1_eq_mask mask_eq_exp_minus_1)

lemma unat_lt64: "unat (x :: size_t) < 2 ^ 64"
  using unsigned_less[of x, where 'a = nat] by simp

lemma SIZE_MAX_minus_gt:
  "(SIZE_MAX - x > y) \<longleftrightarrow> unat x + unat y < 2 ^ 64 - 1"
proof -
  have "x \<le> SIZE_MAX" by (simp add: SIZE_MAX_def)
  then have "unat (SIZE_MAX - x) = unat SIZE_MAX - unat x" by (rule unat_sub)
  then have "unat (SIZE_MAX - x) = 2 ^ 64 - 1 - unat x" by (simp add: unat_SIZE_MAX)
  moreover have "unat x < 2 ^ 64" by (rule unat_lt64)
  ultimately show ?thesis by (simp add: word_less_nat_alt) linarith
qed

lemma SIZE_MAX_minus_gt_self:
  "(SIZE_MAX - x > x) \<longleftrightarrow> \<not> unat SIZE_MAX < 2 * unat x"
proof -
  have "2 * unat x \<noteq> 2 ^ 64 - 1"
  proof
    assume "2 * unat x = 2 ^ 64 - 1"
    then have "even ((2::nat) ^ 64 - 1)" by (metis dvd_triv_left)
    then show False by simp
  qed
  then show ?thesis unfolding SIZE_MAX_minus_gt unat_SIZE_MAX by linarith
qed

lemma SIZE_MAX_minus_gt_other:
  "(SIZE_MAX - x > y) \<longleftrightarrow> \<not> unat SIZE_MAX \<le> unat x + unat y"
  unfolding SIZE_MAX_minus_gt unat_SIZE_MAX by linarith

lemma unat_times4: "4 * unat (x :: size_t) < 2 ^ 64 \<Longrightarrow> unat (x * sizeof_int) = 4 * unat x"
proof -
  assume a: "4 * unat x < 2 ^ 64"
  have "unat x * unat (4 :: size_t) < 2 ^ LENGTH(64)" using a by simp
  then have "unat (x * 4) = unat x * unat (4 :: size_t)" by (simp only: unat_mult_lem)
  then show ?thesis by (simp add: sizeof_int_def)
qed

lemma unat_times2: "2 * unat (x :: size_t) < 2 ^ 64 \<Longrightarrow> unat (x * 2) = 2 * unat x"
proof -
  assume a: "2 * unat x < 2 ^ 64"
  have "unat x * unat (2 :: size_t) < 2 ^ LENGTH(64)" using a by simp
  then have "unat (x * 2) = unat x * unat (2 :: size_t)" by (simp only: unat_mult_lem)
  then show ?thesis by simp
qed

lemma unat_plus: "unat (x :: size_t) + unat y < 2 ^ 64 \<Longrightarrow> unat (x + y) = unat x + unat y"
proof -
  assume a: "unat x + unat y < 2 ^ 64"
  then have "unat x + unat y < 2 ^ LENGTH(64)" by simp
  then show ?thesis by (simp only: unat_add_lem)
qed

lemma unat_succ: "unat (x :: size_t) + 1 < 2 ^ 64 \<Longrightarrow> unat (x + 1) = unat x + 1"
  using unat_plus[of x 1] by simp

lemma store_value_never_overflow: "store_value a v \<noteq> Inl AllocationOverflow"
  by (simp add: store_value_def split: option.splits)


lemma take_Suc_update:
  "l < length xs \<Longrightarrow> take (Suc l) (xs[l := v]) = take l xs @ [v]"
  by (simp add: take_Suc_conv_app_nth)

lemma holds_values_small: "holds_values a vs \<Longrightarrow> 4 * length vs < 2 ^ 64"
proof -
  assume h: "holds_values a vs"
  then have "length vs \<le> unat (alloced a) div 4"
    by (simp add: holds_values_def capacity_def)
  then have "4 * length vs \<le> unat (alloced a)" by arith
  also have "\<dots> < 2 ^ 64" by (rule unat_lt64)
  finally show ?thesis .
qed

lemma holds_values_needs_growth:
  "holds_values a vs \<Longrightarrow> needs_growth a \<longleftrightarrow> unat (alloced a) = 4 * length vs"
proof -
  assume h: "holds_values a vs"
  then have nn: "unat (n a) = length vs" by (simp add: holds_values_def)
  from holds_values_small[OF h] nn have "unat (n a * sizeof_int) = 4 * length vs"
    by (simp add: unat_times4)
  then show ?thesis unfolding needs_growth_def
    by (auto simp: word_unat_eq_iff)
qed

text \<open>Writing the next value into a buffer that has room for it.\<close>

lemma store_value_holds:
  assumes "unat (n a) = length vs" and "length (cells (data a)) = capacity a"
    and "4 dvd unat (alloced a)" and "length vs < capacity a"
    and "take (length vs) (cells (data a)) = vs"
  shows "\<exists>a'. store_value a v = Inr a' \<and> holds_values a' (vs @ [v])
           \<and> grow_by_size a' = grow_by_size a \<and> alloced a' = alloced a"
proof -
  have "4 * capacity a \<le> unat (alloced a)" by (simp add: capacity_def)
  then have "4 * capacity a < 2 ^ 64" using unat_lt64[of "alloced a"] by linarith
  then have "unat (n a) + 1 < 2 ^ 64" using assms(1,4) by linarith
  then have n': "unat (n a + 1) = length vs + 1" using assms(1) by (simp add: unat_succ)
  from assms(2,4) obtain cs where cs: "data a = Some cs" by (cases "data a") (auto simp: cells_def)
  let ?a' = "a\<lparr>data := Some ((cells (data a))[unat (n a) := v]), n := n a + 1\<rparr>"
  have s: "store_value a v = Inr ?a'"
    using assms(1,2,4) cs by (simp add: store_value_def cells_def)
  have "holds_values ?a' (vs @ [v])"
    using assms n' by (simp add: holds_values_def capacity_def cells_def take_Suc_update)
  with s show ?thesis by simp
qed

text \<open>The buffer after a reallocation: its length, and the cells it keeps.\<close>

lemma length_realloc:
  "realloc_ok sz \<Longrightarrow> length (cells (realloc realloc_ok d sz)) = unat sz div 4"
  by (simp add: realloc_def cells_def)

lemma take_realloc:
  "realloc_ok sz \<Longrightarrow> l \<le> length (cells d) \<Longrightarrow> l \<le> unat sz div 4 \<Longrightarrow>
   take l (cells (realloc realloc_ok d sz)) = take l (cells d)"
  by (simp add: realloc_def cells_def min_def)

lemma grown_store_holds:
  assumes h: "holds_values a vs" and big: "4 * length vs + 4 \<le> unat sz" and d4: "4 dvd unat sz"
    and ok: "realloc_ok sz"
  shows "\<exists>a'. store_value (a\<lparr>data := realloc realloc_ok (data a) sz, alloced := sz\<rparr>) v = Inr a'
           \<and> holds_values a' (vs @ [v]) \<and> grow_by_size a' = grow_by_size a \<and> alloced a' = sz"
proof -
  let ?b = "a\<lparr>data := realloc realloc_ok (data a) sz, alloced := sz\<rparr>"
  from h have old: "length vs \<le> length (cells (data a))"
    "take (length vs) (cells (data a)) = vs" "unat (n a) = length vs"
    by (simp_all add: holds_values_def)
  from big have room: "length vs < unat sz div 4" by arith
  have 1: "unat (n ?b) = length vs" using old(3) by simp
  have 2: "length (cells (data ?b)) = capacity ?b"
    using ok by (simp add: length_realloc capacity_def)
  have 3: "4 dvd unat (alloced ?b)" using d4 by simp
  have 4: "length vs < capacity ?b" using room by (simp add: capacity_def)
  have 5: "take (length vs) (cells (data ?b)) = vs"
    using take_realloc[of realloc_ok sz "length vs" "data a", OF ok old(1)] room old(2) by simp
  from store_value_holds[OF 1 2 3 4 5, where v = v] show ?thesis by simp
qed

text \<open>One append under the doubling policy.\<close>

lemma add_value_doubling:
  assumes h: "holds_values a vs" and g: "grow_by_size a \<le> 1" and b: "length vs < 2 ^ 61"
    and ok: "\<And>sz. realloc_ok sz"
  shows "\<exists>a'. int_varray_add_value realloc_ok a v = Inr a' \<and> holds_values a' (vs @ [v])
           \<and> grow_by_size a' = grow_by_size a
           \<and> unat (alloced a') =
               (if needs_growth a then (if length vs = 0 then 4 else 2 * unat (alloced a))
                else unat (alloced a))"
proof (cases "needs_growth a")
  case True
  then have al: "unat (alloced a) = 4 * length vs"
    using holds_values_needs_growth[OF h] by simp
  have nn: "unat (n a) = length vs" using h by (simp add: holds_values_def)
  have n0: "(0 = n a) = (length vs = 0)" using nn by (metis unat_eq_0)
  have chk: "SIZE_MAX - alloced a > alloced a"
    using al b by (simp add: SIZE_MAX_minus_gt)
  let ?sz = "if 0 = n a then sizeof_int else alloced a * 2"
  have u2: "unat (alloced a * 2) = 2 * unat (alloced a)"
    using al b by (simp add: unat_times2)
  have usz: "unat ?sz = (if length vs = 0 then 4 else 2 * unat (alloced a))"
    using n0 u2 by (simp add: sizeof_int_def)
  have big: "4 * length vs + 4 \<le> unat ?sz" unfolding usz using al by (cases vs) simp_all
  have d4: "4 dvd unat ?sz" unfolding usz using al by simp
  from grown_store_holds[where realloc_ok = realloc_ok, OF h big d4 ok, where v = v]
  obtain a' where a': "store_value (a\<lparr>data := realloc realloc_ok (data a) ?sz, alloced := ?sz\<rparr>) v = Inr a'"
    "holds_values a' (vs @ [v])" "grow_by_size a' = grow_by_size a" "alloced a' = ?sz"
    by blast
  have "int_varray_add_value realloc_ok a v = Inr a'"
    using True g chk a'(1) by (simp add: int_varray_add_value_def needs_growth_def Let_def)
  then show ?thesis using a'(2,3,4) usz True by auto
next
  case False
  then have ne: "unat (alloced a) \<noteq> 4 * length vs"
    using holds_values_needs_growth[OF h] by simp
  from h have f: "unat (n a) = length vs" "length (cells (data a)) = capacity a"
    "4 dvd unat (alloced a)" "length vs \<le> capacity a"
    "take (length vs) (cells (data a)) = vs"
    by (simp_all add: holds_values_def)
  have "length vs < capacity a"
    using f(3,4) ne unfolding capacity_def by (auto simp: dvd_def)
  from store_value_holds[OF f(1,2,3) this f(5), where v = v]
  obtain a' where a': "store_value a v = Inr a'" "holds_values a' (vs @ [v])"
    "grow_by_size a' = grow_by_size a" "alloced a' = alloced a" by blast
  have "int_varray_add_value realloc_ok a v = Inr a'"
    using False a'(1) by (simp add: int_varray_add_value_def needs_growth_def)
  then show ?thesis using a'(2,3,4) False by auto
qed

text \<open>One append under a fixed increment that is a whole number of \<open>int\<close>s.\<close>

lemma add_value_fixed:
  assumes h: "holds_values a vs" and g: "\<not> grow_by_size a \<le> 1"
    and g4: "4 dvd unat (grow_by_size a)"
    and b: "4 * length vs + unat (grow_by_size a) < 2 ^ 64 - 1"
    and ok: "\<And>sz. realloc_ok sz"
  shows "\<exists>a'. int_varray_add_value realloc_ok a v = Inr a' \<and> holds_values a' (vs @ [v])
           \<and> grow_by_size a' = grow_by_size a
           \<and> unat (alloced a') =
               (if needs_growth a then unat (alloced a) + unat (grow_by_size a)
                else unat (alloced a))"
proof (cases "needs_growth a")
  case True
  then have al: "unat (alloced a) = 4 * length vs"
    using holds_values_needs_growth[OF h] by simp
  have "unat (grow_by_size a) \<noteq> 0" using g by (metis unat_eq_0 word_zero_le)
  then have g4': "4 \<le> unat (grow_by_size a)" using g4 by (auto simp: dvd_def)
  have chk: "SIZE_MAX - alloced a > grow_by_size a"
    using al b by (simp add: SIZE_MAX_minus_gt)
  let ?sz = "alloced a + grow_by_size a"
  have usz: "unat ?sz = unat (alloced a) + unat (grow_by_size a)"
    using al b by (simp add: unat_plus)
  have big: "4 * length vs + 4 \<le> unat ?sz" unfolding usz using al g4' by simp
  have d4: "4 dvd unat ?sz" unfolding usz using al g4 by simp
  from grown_store_holds[where realloc_ok = realloc_ok, OF h big d4 ok, where v = v]
  obtain a' where a': "store_value (a\<lparr>data := realloc realloc_ok (data a) ?sz, alloced := ?sz\<rparr>) v = Inr a'"
    "holds_values a' (vs @ [v])" "grow_by_size a' = grow_by_size a" "alloced a' = ?sz"
    by blast
  have "int_varray_add_value realloc_ok a v = Inr a'"
    using True g chk a'(1) by (simp add: int_varray_add_value_def needs_growth_def Let_def)
  then show ?thesis using a'(2,3,4) usz True by auto
next
  case False
  then have ne: "unat (alloced a) \<noteq> 4 * length vs"
    using holds_values_needs_growth[OF h] by simp
  from h have f: "unat (n a) = length vs" "length (cells (data a)) = capacity a"
    "4 dvd unat (alloced a)" "length vs \<le> capacity a"
    "take (length vs) (cells (data a)) = vs"
    by (simp_all add: holds_values_def)
  have "length vs < capacity a"
    using f(3,4) ne unfolding capacity_def by (auto simp: dvd_def)
  from store_value_holds[OF f(1,2,3) this f(5), where v = v]
  obtain a' where a': "store_value a v = Inr a'" "holds_values a' (vs @ [v])"
    "grow_by_size a' = grow_by_size a" "alloced a' = alloced a" by blast
  have "int_varray_add_value realloc_ok a v = Inr a'"
    using False a'(1) by (simp add: int_varray_add_value_def needs_growth_def)
  then show ?thesis using a'(2,3,4) False by auto
qed

text \<open>A run of appends keeps every value, as long as the overflow checks pass.\<close>

lemma add_values_doubling:
  assumes "holds_values a ws" and "grow_by_size a \<le> 1" and "length ws + length vs \<le> 2 ^ 61"
    and "\<And>sz. realloc_ok sz"
  shows "\<exists>a'. int_varray_add_values realloc_ok a vs = Inr a' \<and> holds_values a' (ws @ vs)"
  using assms
proof (induction vs arbitrary: a ws)
  case Nil
  then show ?case by simp
next
  case (Cons v vs)
  from Cons.prems(3) have "length ws < 2 ^ 61" by simp
  from add_value_doubling[where realloc_ok = realloc_ok, OF Cons.prems(1,2) this Cons.prems(4), where v = v]
  obtain a1 where a1: "int_varray_add_value realloc_ok a v = Inr a1" "holds_values a1 (ws @ [v])"
    "grow_by_size a1 = grow_by_size a" by blast
  have "length (ws @ [v]) + length vs \<le> 2 ^ 61" using Cons.prems(3) by simp
  from Cons.IH[OF a1(2) _ this Cons.prems(4)] a1(3) Cons.prems(2)
  obtain a' where "int_varray_add_values realloc_ok a1 vs = Inr a'" "holds_values a' ((ws @ [v]) @ vs)"
    by auto
  with a1(1) show ?case by simp
qed

lemma add_values_fixed:
  assumes "holds_values a ws" and "\<not> grow_by_size a \<le> 1" and "4 dvd unat (grow_by_size a)"
    and "4 * (length ws + length vs) + unat (grow_by_size a) \<le> 2 ^ 64"
    and "\<And>sz. realloc_ok sz"
  shows "\<exists>a'. int_varray_add_values realloc_ok a vs = Inr a' \<and> holds_values a' (ws @ vs)"
  using assms
proof (induction vs arbitrary: a ws)
  case Nil
  then show ?case by simp
next
  case (Cons v vs)
  from Cons.prems(4) have "4 * length ws + unat (grow_by_size a) < 2 ^ 64 - 1" by simp
  from add_value_fixed[where realloc_ok = realloc_ok, OF Cons.prems(1,2,3) this Cons.prems(5), where v = v]
  obtain a1 where a1: "int_varray_add_value realloc_ok a v = Inr a1" "holds_values a1 (ws @ [v])"
    "grow_by_size a1 = grow_by_size a" by blast
  have "4 * (length (ws @ [v]) + length vs) + unat (grow_by_size a1) \<le> 2 ^ 64"
    using Cons.prems(4) a1(3) by simp
  from Cons.IH[OF a1(2) _ _ this Cons.prems(5)] a1(3) Cons.prems(2,3)
  obtain a' where "int_varray_add_values realloc_ok a1 vs = Inr a'" "holds_values a' ((ws @ [v]) @ vs)"
    by auto
  with a1(1) show ?case by simp
qed

lemma holds_values_init: "holds_values (int_varray_init a g) []"
  by (simp add: holds_values_def int_varray_init_def capacity_def cells_def)

lemma needs_growth_dvd: "needs_growth a \<Longrightarrow> 4 dvd unat (alloced a)"
proof -
  assume "needs_growth a"
  then have "unat (alloced a) = unat (n a * 4)" by (simp add: needs_growth_def sizeof_int_def)
  also have "\<dots> = (unat (n a) * 4) mod 2 ^ 64" by (simp add: unat_word_ariths)
  finally show ?thesis by (simp add: dvd_mod_iff)
qed

lemma store_value_alloced: "store_value a v = Inr a' \<Longrightarrow> alloced a' = alloced a"
  by (auto simp: store_value_def split: if_splits option.splits)

text \<open>What one successful append does to the allocated size.\<close>

lemma add_value_policy:
  assumes "int_varray_add_value realloc_ok a v = Inr a'"
  shows "unat (alloced a') =
           (if needs_growth a then
              (if grow_by_size a \<le> 1 then (if n a = 0 then 4 else 2 * unat (alloced a))
               else unat (alloced a) + unat (grow_by_size a))
            else unat (alloced a))"
proof (cases "needs_growth a")
  case False
  then show ?thesis using assms store_value_alloced[of a v a']
    by (simp add: int_varray_add_value_def needs_growth_def)
next
  case True
  show ?thesis
  proof (cases "grow_by_size a \<le> 1")
    case g: True
    have chk: "SIZE_MAX - alloced a > alloced a"
      using assms True g by (auto simp: int_varray_add_value_def needs_growth_def split: if_splits)
    then have "2 * unat (alloced a) < 2 ^ 64" by (simp add: SIZE_MAX_minus_gt)
    then have u2: "unat (alloced a * 2) = 2 * unat (alloced a)" by (rule unat_times2)
    let ?sz = "if 0 = n a then sizeof_int else alloced a * 2"
    have "store_value (a\<lparr>data := realloc realloc_ok (data a) ?sz, alloced := ?sz\<rparr>) v = Inr a'"
      using assms True g chk by (simp add: int_varray_add_value_def needs_growth_def Let_def)
    from store_value_alloced[OF this] have "alloced a' = ?sz" by simp
    then show ?thesis using True g u2 by (auto simp: sizeof_int_def)
  next
    case g: False
    have chk: "SIZE_MAX - alloced a > grow_by_size a"
      using assms True g by (auto simp: int_varray_add_value_def needs_growth_def split: if_splits)
    then have "unat (alloced a) + unat (grow_by_size a) < 2 ^ 64" by (simp add: SIZE_MAX_minus_gt)
    then have u: "unat (alloced a + grow_by_size a) = unat (alloced a) + unat (grow_by_size a)"
      by (rule unat_plus)
    let ?sz = "alloced a + grow_by_size a"
    have "store_value (a\<lparr>data := realloc realloc_ok (data a) ?sz, alloced := ?sz\<rparr>) v = Inr a'"
      using assms True g chk by (simp add: int_varray_add_value_def needs_growth_def Let_def)
    from store_value_alloced[OF this] have "alloced a' = ?sz" by simp
    then show ?thesis using True g u by auto
  qed
qed

subsection \<open>The overflow checks\<close>

text \<open>
  Claim C3, as amended. An append whose reallocation would need more bytes than
  \<open>SIZE_MAX\<close> ends with \<open>AllocationOverflow\<close>, before anything is reallocated and
  without wrapping. An append whose next size stays below \<open>SIZE_MAX\<close> never ends with
  that error. The error occurs exactly when the buffer is full and either the doubled
  size exceeds \<open>SIZE_MAX\<close> (increment at most 1) or the size plus the increment reaches
  \<open>SIZE_MAX\<close> (fixed increment): the fixed-increment check also refuses the size
  \<open>SIZE_MAX\<close> itself, which would not overflow.
\<close>

theorem int_varray_add_value_overflow_check:
  "(needs_growth a \<and> unat SIZE_MAX < next_size a \<longrightarrow>
       int_varray_add_value realloc_ok a v = Inl AllocationOverflow)
   \<and> (next_size a < unat SIZE_MAX \<longrightarrow> int_varray_add_value realloc_ok a v \<noteq> Inl AllocationOverflow)
   \<and> (int_varray_add_value realloc_ok a v = Inl AllocationOverflow \<longleftrightarrow>
        needs_growth a \<and>
        (if grow_by_size a \<le> 1 then unat SIZE_MAX < 2 * unat (alloced a)
         else unat SIZE_MAX \<le> unat (alloced a) + unat (grow_by_size a)))"
proof -
  have iff: "int_varray_add_value realloc_ok a v = Inl AllocationOverflow \<longleftrightarrow>
        needs_growth a \<and>
        (if grow_by_size a \<le> 1 then unat SIZE_MAX < 2 * unat (alloced a)
         else unat SIZE_MAX \<le> unat (alloced a) + unat (grow_by_size a))"
    unfolding int_varray_add_value_def needs_growth_def
    by (simp add: Let_def store_value_never_overflow SIZE_MAX_minus_gt_self
        SIZE_MAX_minus_gt_other)
  have z: "needs_growth a \<Longrightarrow> n a = 0 \<Longrightarrow> unat (alloced a) = 0"
    by (simp add: needs_growth_def)
  show ?thesis
  proof (intro conjI impI)
    assume h: "needs_growth a \<and> unat SIZE_MAX < next_size a"
    then show "int_varray_add_value realloc_ok a v = Inl AllocationOverflow"
      using z unfolding iff by (auto simp: next_size_def unat_SIZE_MAX split: if_splits)
  next
    assume h: "next_size a < unat SIZE_MAX"
    then show "int_varray_add_value realloc_ok a v \<noteq> Inl AllocationOverflow"
      using z unfolding iff by (auto simp: next_size_def unat_SIZE_MAX split: if_splits)
  next
    show "int_varray_add_value realloc_ok a v = Inl AllocationOverflow \<longleftrightarrow>
        needs_growth a \<and>
        (if grow_by_size a \<le> 1 then unat SIZE_MAX < 2 * unat (alloced a)
         else unat SIZE_MAX \<le> unat (alloced a) + unat (grow_by_size a))" by (rule iff)
  qed
qed

text \<open>
  The check on a full doubling array of \<open>2^61\<close> elements, and on a fresh array with
  increment 16.
\<close>

theorem int_varray_add_value_overflow_check_witness:
  "needs_growth \<lparr>n = 2305843009213693952, data = None, grow_by_size = 0,
                    alloced = 9223372036854775808\<rparr>
   \<and> unat SIZE_MAX < next_size \<lparr>n = 2305843009213693952, data = None, grow_by_size = 0,
                    alloced = 9223372036854775808\<rparr>
   \<and> int_varray_add_value (\<lambda>sz. True) \<lparr>n = 2305843009213693952, data = None, grow_by_size = 0,
                    alloced = 9223372036854775808\<rparr> 7 = Inl AllocationOverflow
   \<and> next_size \<lparr>n = 0, data = None, grow_by_size = 16, alloced = 0\<rparr> < unat SIZE_MAX
   \<and> int_varray_add_value (\<lambda>sz. True) \<lparr>n = 0, data = None, grow_by_size = 16, alloced = 0\<rparr> 7
        \<noteq> Inl AllocationOverflow"
proof -
  let ?A = "\<lparr>n = 2305843009213693952, data = None, grow_by_size = 0,
             alloced = 9223372036854775808 :: size_t\<rparr>"
  let ?B = "\<lparr>n = 0, data = None, grow_by_size = 16, alloced = 0 :: size_t\<rparr>"
  have h1: "needs_growth ?A \<and> unat SIZE_MAX < next_size ?A"
    by (simp add: needs_growth_def next_size_def sizeof_int_def unat_SIZE_MAX)
  have h2: "next_size ?B < unat SIZE_MAX"
    by (simp add: next_size_def unat_SIZE_MAX)
  from int_varray_add_value_overflow_check[of ?A "\<lambda>sz. True" 7] h1
  have r1: "int_varray_add_value (\<lambda>sz. True) ?A 7 = Inl AllocationOverflow" by blast
  from int_varray_add_value_overflow_check[of ?B "\<lambda>sz. True" 7] h2
  have r2: "int_varray_add_value (\<lambda>sz. True) ?B 7 \<noteq> Inl AllocationOverflow" by blast
  from h1 h2 r1 r2 show ?thesis by blast
qed

text \<open>
  The claim as stated fails on a fresh array with increment \<open>SIZE_MAX\<close>: the next size
  is \<open>SIZE_MAX\<close>, which is representable, and the append is refused all the same.
\<close>

theorem int_varray_add_value_overflow_counterexample:
  "int_varray_add_value (\<lambda>sz. True) (int_varray_init \<lparr>n = 0, data = None, grow_by_size = 0, alloced = 0\<rparr> (- 1)) 7
     = Inl AllocationOverflow
   \<and> needs_growth (int_varray_init \<lparr>n = 0, data = None, grow_by_size = 0, alloced = 0\<rparr> (- 1))
   \<and> next_size (int_varray_init \<lparr>n = 0, data = None, grow_by_size = 0, alloced = 0\<rparr> (- 1))
       = unat SIZE_MAX"
proof (intro conjI)
  show "int_varray_add_value (\<lambda>sz. True) (int_varray_init \<lparr>n = 0, data = None, grow_by_size = 0, alloced = 0\<rparr> (- 1)) 7
     = Inl AllocationOverflow" by code_simp
  show "needs_growth (int_varray_init \<lparr>n = 0, data = None, grow_by_size = 0, alloced = 0\<rparr> (- 1))"
    by (simp add: needs_growth_def int_varray_init_def)
  show "next_size (int_varray_init \<lparr>n = 0, data = None, grow_by_size = 0, alloced = 0\<rparr> (- 1))
       = unat SIZE_MAX"
    by (simp add: next_size_def int_varray_init_def SIZE_MAX_def word_le_nat_alt
        unsigned_minus_1_eq_mask mask_eq_exp_minus_1)
qed

subsection \<open>Reset\<close>

text \<open>
  Claim C9. \<open>int_varray_free\<close> releases the buffer and leaves the empty state: no
  buffer, length 0, capacity 0 (and increment 0, the state \<open>int_varray_init\<close> gives for
  increment 0). It does so on an empty array as on any other, and a second call changes
  nothing.
\<close>

theorem int_varray_free_resets:
  "int_varray_free a = \<lparr>n = 0, data = None, grow_by_size = 0, alloced = 0\<rparr>
   \<and> int_varray_free a = int_varray_init a 0
   \<and> n (int_varray_free a) = 0 \<and> capacity (int_varray_free a) = 0
   \<and> data (int_varray_free a) = None
   \<and> int_varray_free (int_varray_init a g) = int_varray_init a 0
   \<and> int_varray_free (int_varray_free a) = int_varray_free a"
  by (simp add: int_varray_free_def int_varray_init_def capacity_def)

subsection \<open>Growth and contents\<close>

text \<open>
  What the growth code gets right. A successful append that finds the buffer full gives
  capacity 1 to an empty array and doubles the capacity otherwise when the increment is
  at most 1, and adds \<open>grow_by_size\<close> bytes to the allocated size when the increment
  is larger. When every \<open>realloc\<close> succeeds, appends to a fresh array with an increment
  of at most 1 (up to \<open>2^61\<close> values), or with an increment that happens to be a
  multiple of \<open>sizeof(int)\<close>, all succeed and keep every value at its index.
\<close>

lemma int_varray_growth_and_contents:
  "(int_varray_add_value realloc_ok a v = Inr a' \<longrightarrow>
      (if needs_growth a then
         (if grow_by_size a \<le> 1 then capacity a' = (if n a = 0 then 1 else 2 * capacity a)
          else unat (alloced a') = unat (alloced a) + unat (grow_by_size a))
       else capacity a' = capacity a))
   \<and> ((\<forall>sz. realloc_ok sz) \<and>
        ((g \<le> 1 \<and> length vs \<le> 2 ^ 61) \<or>
         (1 < g \<and> 4 dvd unat g \<and> 4 * length vs + unat g \<le> 2 ^ 64)) \<longrightarrow>
        (\<exists>b. int_varray_add_values realloc_ok (int_varray_init a0 g) vs = Inr b
            \<and> unat (n b) = length vs \<and> length vs \<le> capacity b
            \<and> (\<forall>i<length vs. cells (data b) ! i = vs ! i)))"
proof (intro conjI impI)
  assume r: "int_varray_add_value realloc_ok a v = Inr a'"
  note p = add_value_policy[OF r]
  show "if needs_growth a then
          (if grow_by_size a \<le> 1 then capacity a' = (if n a = 0 then 1 else 2 * capacity a)
           else unat (alloced a') = unat (alloced a) + unat (grow_by_size a))
        else capacity a' = capacity a"
  proof (cases "needs_growth a")
    case False
    then show ?thesis using p by (simp add: capacity_def)
  next
    case True
    from needs_growth_dvd[OF True] obtain k where k: "unat (alloced a) = 4 * k"
      by (auto simp: dvd_def)
    show ?thesis using True p k by (simp add: capacity_def)
  qed
next
  assume b0: "(\<forall>sz. realloc_ok sz) \<and>
        ((g \<le> 1 \<and> length vs \<le> 2 ^ 61) \<or>
         (1 < g \<and> 4 dvd unat g \<and> 4 * length vs + unat g \<le> 2 ^ 64))"
  then have ok: "\<And>sz. realloc_ok sz" by blast
  from b0 have b: "(g \<le> 1 \<and> length vs \<le> 2 ^ 61) \<or>
        (1 < g \<and> 4 dvd unat g \<and> 4 * length vs + unat g \<le> 2 ^ 64)" by blast
  let ?i = "int_varray_init a0 g"
  have gi: "grow_by_size ?i = g" by (simp add: int_varray_init_def)
  have hi: "holds_values ?i []" by (rule holds_values_init)
  have "\<exists>b. int_varray_add_values realloc_ok ?i vs = Inr b \<and> holds_values b ([] @ vs)"
  proof (cases "g \<le> 1")
    case True
    with b have "length ([] :: c_int list) + length vs \<le> 2 ^ 61" by auto
    from add_values_doubling[where realloc_ok = realloc_ok, OF hi _ this ok] True gi show ?thesis by simp
  next
    case False
    with b have f: "4 dvd unat (grow_by_size ?i)"
      "4 * (length ([] :: c_int list) + length vs) + unat (grow_by_size ?i) \<le> 2 ^ 64"
      by (auto simp: gi)
    from False have "\<not> grow_by_size ?i \<le> 1" by (simp add: gi)
    from add_values_fixed[where realloc_ok = realloc_ok, OF hi this f ok] show ?thesis .
  qed
  then obtain b where b: "int_varray_add_values realloc_ok ?i vs = Inr b" "holds_values b vs" by auto
  from b(2) have t: "take (length vs) (cells (data b)) = vs" "unat (n b) = length vs"
    "length vs \<le> capacity b" by (simp_all add: holds_values_def)
  have "\<forall>i<length vs. cells (data b) ! i = vs ! i"
  proof (intro allI impI)
    fix i assume "i < length vs"
    then have "take (length vs) (cells (data b)) ! i = cells (data b) ! i" by simp
    then show "cells (data b) ! i = vs ! i" by (simp add: t(1))
  qed
  with b(1) t show "\<exists>b. int_varray_add_values realloc_ok ?i vs = Inr b
            \<and> unat (n b) = length vs \<and> length vs \<le> capacity b
            \<and> (\<forall>i<length vs. cells (data b) ! i = vs ! i)" by blast
qed

text \<open>
  Claim C2. With an increment above 1 every growth is to add that number of elements,
  and after N appends the capacity is to be at least N with every value readable. The
  code adds the increment to the allocated size in bytes, without the factor
  \<open>sizeof(int)\<close> of its doubling branch. With increment 2 the first append allocates 2
  bytes and the store of the first \<open>int\<close> writes past the buffer. With increment 8 the
  first append allocates 8 bytes, a capacity of 2 elements and not 8.
\<close>

theorem int_varray_increment_unscaled:
  "int_varray_add_values (\<lambda>sz. True)
        (int_varray_init \<lparr>n = 0, data = None, grow_by_size = 0, alloced = 0\<rparr> 2) [7]
       = Inl BufferOverrun
   \<and> int_varray_add_value (\<lambda>sz. True)
        (int_varray_init \<lparr>n = 0, data = None, grow_by_size = 0, alloced = 0\<rparr> 8) 7
     = Inr \<lparr>n = 1, data = Some [7, 0], grow_by_size = 8, alloced = 8\<rparr>
   \<and> capacity \<lparr>n = 1, data = Some [7, 0], grow_by_size = 8, alloced = 8\<rparr> = 2
   \<and> capacity (int_varray_init \<lparr>n = 0, data = None, grow_by_size = 0, alloced = 0\<rparr> 8) = 0"
proof (intro conjI)
  show "int_varray_add_values (\<lambda>sz. True)
        (int_varray_init \<lparr>n = 0, data = None, grow_by_size = 0, alloced = 0\<rparr> 2) [7]
       = Inl BufferOverrun" by code_simp
  show "int_varray_add_value (\<lambda>sz. True)
        (int_varray_init \<lparr>n = 0, data = None, grow_by_size = 0, alloced = 0\<rparr> 8) 7
     = Inr \<lparr>n = 1, data = Some [7, 0], grow_by_size = 8, alloced = 8\<rparr>" by code_simp
  show "capacity \<lparr>n = 1, data = Some [7, 0], grow_by_size = 8, alloced = 8\<rparr> = 2"
    by (simp add: capacity_def)
  show "capacity (int_varray_init \<lparr>n = 0, data = None, grow_by_size = 0, alloced = 0\<rparr> 8) = 0"
    by (simp add: capacity_def int_varray_init_def)
qed

section \<open>Properties of the file probes and of file loading\<close>

text \<open>
  What \<open>is_dir\<close> gets right: a failed \<open>stat\<close> gives 0, a directory gives 1, a regular
  file gives 0.
\<close>

lemma is_dir_stat_fails: "stat path = None \<Longrightarrow> is_dir stat path = 0"
  by (simp add: is_dir_def)

lemma is_dir_directory:
  assumes "stat path = Some m" and "S_ISDIR m"
  shows "is_dir stat path = 1"
proof -
  have "m AND S_IFDIR = (m AND S_IFMT) AND S_IFDIR"
    by (simp add: S_IFMT_def S_IFDIR_def and.assoc)
  also have "\<dots> = S_IFDIR" using assms(2) by (simp add: S_ISDIR_def)
  finally have "m AND S_IFDIR \<noteq> 0" by (simp add: S_IFDIR_def)
  with assms(1) show ?thesis by (simp add: is_dir_def)
qed

lemma is_dir_regular_file:
  assumes "stat path = Some m" and "m AND S_IFMT = S_IFREG"
  shows "is_dir stat path = 0"
proof -
  have "m AND S_IFDIR = (m AND S_IFMT) AND S_IFDIR"
    by (simp add: S_IFMT_def S_IFDIR_def and.assoc)
  also have "\<dots> = 0" using assms(2) by (simp add: S_IFREG_def S_IFDIR_def)
  finally show ?thesis using assms(1) by (simp add: is_dir_def)
qed

text \<open>
  Claim C7. \<open>is_dir\<close> is to return true only for a directory and false for a path that
  exists but is no directory. The code tests the single bit \<open>S_IFDIR\<close> of \<open>st_mode\<close>,
  which the types of a block device and of a socket also have: on a block device with
  mode 0660 and on a socket with mode 0755 \<open>is_dir\<close> returns 1, although neither is a
  directory.
\<close>

theorem is_dir_block_device:
  "is_dir (\<lambda>p. if p = ''/dev/sda'' then Some (S_IFBLK OR 432) else None) ''/dev/sda'' = 1
   \<and> \<not> S_ISDIR (S_IFBLK OR 432)
   \<and> is_dir (\<lambda>p. if p = ''/run/sock'' then Some (S_IFSOCK OR 493) else None) ''/run/sock'' = 1
   \<and> \<not> S_ISDIR (S_IFSOCK OR 493)"
  by (simp add: is_dir_def S_ISDIR_def S_IFBLK_def S_IFSOCK_def S_IFDIR_def S_IFMT_def)

text \<open>
  What \<open>ae_load_file_to_memory\<close> gets right, for a \<open>result\<close> that is not \<open>NULL\<close> and
  a file shorter than \<open>INT_MAX\<close> bytes: a failed open returns -1 with
  \<open>*result = NULL\<close>; a short read frees the buffer and returns -3 (the file stays open
  and \<open>*result\<close> keeps the freed address); a full read returns the number of bytes,
  with the content and a final 0 in the buffer. The value -2 is never returned.
\<close>

lemma size_fits_int:
  assumes "length content < 2 ^ 31 - 1"
  shows "sint (word_of_int (ftell content) :: 32 word) = int (length content)"
    and "(int (length content) = INT_MAX) = False"
proof -
  have f: "ftell content = int (length content)" using assms by (simp add: ftell_def)
  have "signed_take_bit 31 (int (length content)) = int (length content)"
    using assms by (intro signed_take_bit_int_eq_self) simp_all
  then show "sint (word_of_int (ftell content) :: 32 word) = int (length content)"
    by (simp add: f signed_of_int signed_of_nat)
  show "(int (length content) = INT_MAX) = False"
    using assms by (simp add: INT_MAX_def)
qed

lemma size_as_size_t:
  assumes "length content < 2 ^ 31 - 1"
  shows "nat ((int (length content) + 1) mod 2 ^ 64) = length content + 1"
    and "nat (int (length content) mod 2 ^ 64) = length content"
proof -
  have "int (length content) + 1 < 2 ^ 64" "int (length content) < 2 ^ 64"
    using assms by simp_all
  then show "nat ((int (length content) + 1) mod 2 ^ 64) = length content + 1"
    and "nat (int (length content) mod 2 ^ 64) = length content"
    by simp_all
qed

lemma ae_load_open_failure:
  "fopen filename = None \<Longrightarrow>
   ae_load_file_to_memory fopen malloc_ok fread False filename = Returns (- 1) NullPtr False"
  by (simp add: ae_load_file_to_memory_def)

lemma ae_load_small:
  assumes "fopen filename = Some content" and "length content < 2 ^ 31 - 1"
  shows "ae_load_file_to_memory fopen malloc_ok fread False filename =
           (if malloc_ok (length content + 1) then
              (if length content \<noteq> min (length content) (fread (length content))
               then Returns (- 3) Dangling True
               else Returns (int (length content)) (Live (content @ [0])) False)
            else if 0 < min (length content) (fread (length content)) then Segfault
            else if length content \<noteq> 0 then Returns (- 3) NullPtr True
            else Segfault)"
proof -
  note sz = size_fits_int[OF assms(2)] size_as_size_t[OF assms(2)]
  have "ae_load_file_to_memory fopen malloc_ok fread False filename =
          (case (if malloc_ok (length content + 1)
                 then Live (replicate (length content + 1) 0) else NullPtr) of
             Live x \<Rightarrow>
               (if length content \<noteq> min (min (length content) (length content)) (fread (length content))
                then Returns (- 3) Dangling True
                else Returns (int (length content))
                  (Live (take (min (min (length content) (length content)) (fread (length content)))
                     content @ [0])) False)
           | _ \<Rightarrow>
               (if 0 < min (min (length content) (length content)) (fread (length content))
                then Segfault
                else if length content
                    \<noteq> min (min (length content) (length content)) (fread (length content))
                then Returns (- 3) NullPtr True
                else Segfault))"
    unfolding ae_load_file_to_memory_def
    by (simp only: assms(1) option.case Let_def sz if_False)
  also have "\<dots> = (if malloc_ok (length content + 1) then
              (if length content \<noteq> min (length content) (fread (length content))
               then Returns (- 3) Dangling True
               else Returns (int (length content)) (Live (content @ [0])) False)
            else if 0 < min (length content) (fread (length content)) then Segfault
            else if length content \<noteq> 0 then Returns (- 3) NullPtr True
            else Segfault)"
    by (auto simp: min_def)
  finally show ?thesis .
qed

lemma ae_load_short_read:
  assumes "fopen filename = Some content" and "length content < 2 ^ 31 - 1"
    and "malloc_ok (length content + 1)" and "fread (length content) < length content"
  shows "ae_load_file_to_memory fopen malloc_ok fread False filename = Returns (- 3) Dangling True"
  using assms(3,4) by (simp add: ae_load_small[where fopen = fopen and filename = filename, OF assms(1,2)])

lemma ae_load_success:
  assumes "fopen filename = Some content" and "length content < 2 ^ 31 - 1"
    and "malloc_ok (length content + 1)" and "length content \<le> fread (length content)"
  shows "ae_load_file_to_memory fopen malloc_ok fread False filename
     = Returns (int (length content)) (Live (content @ [0])) False"
  using assms(3,4) by (simp add: ae_load_small[where fopen = fopen and filename = filename, OF assms(1,2)])

lemma size_minus_2_short:
  assumes "sint (word_of_int (ftell content) :: 32 word) = - 2"
  shows "nat (sint (word_of_int (ftell content) :: 32 word) mod 2 ^ 64)
           \<noteq> min (min (nat (sint (word_of_int (ftell content) :: 32 word) mod 2 ^ 64))
                       (length content)) k"
proof -
  have "length content < 2 ^ 63"
  proof (rule ccontr)
    assume "\<not> length content < 2 ^ 63"
    then have "ftell content = - 1" by (simp add: ftell_def)
    then have "sint (word_of_int (ftell content) :: 32 word) = - 1" by simp
    with assms show False by simp
  qed
  moreover have "nat (sint (word_of_int (ftell content) :: 32 word) mod 2 ^ 64)
      = 18446744073709551614" by (simp add: assms)
  ultimately show ?thesis by (simp add: min_def)
qed

lemma ae_load_never_minus_2:
  "ae_load_file_to_memory fopen malloc_ok fread result_null filename \<noteq> Returns (- 2) h b"
proof (cases "fopen filename")
  case None
  then show ?thesis by (simp add: ae_load_file_to_memory_def)
next
  case (Some content)
  define sz where "sz = sint (word_of_int (ftell content) :: 32 word)"
  define cnt where "cnt = nat (sz mod 2 ^ 64)"
  define got where "got = min (min cnt (length content)) (fread cnt)"
  have short: "sz = - 2 \<Longrightarrow> cnt \<noteq> got"
    unfolding sz_def cnt_def got_def by (rule size_minus_2_short)
  have unf: "ae_load_file_to_memory fopen malloc_ok fread result_null filename =
      (if sz = INT_MAX then IntOverflow
       else if result_null then Segfault
       else (case (if malloc_ok (nat ((sz + 1) mod 2 ^ 64))
                   then Live (replicate (nat ((sz + 1) mod 2 ^ 64)) 0) else NullPtr) of
               Live x \<Rightarrow>
                 (if cnt \<noteq> got then Returns (- 3) Dangling True
                  else Returns sz (Live (take got content @ [0])) False)
             | _ \<Rightarrow>
                 (if 0 < got then Segfault
                  else if cnt \<noteq> got then Returns (- 3) NullPtr True
                  else Segfault)))"
    unfolding ae_load_file_to_memory_def sz_def cnt_def got_def
    by (cases result_null) (simp_all only: Some option.case Let_def if_True if_False)
  show ?thesis
  proof (cases "malloc_ok (nat ((sz + 1) mod 2 ^ 64))")
    case True
    then show ?thesis unfolding unf using short by (simp only: if_True heap_ref.case) auto
  next
    case False
    then show ?thesis unfolding unf by (simp only: if_False heap_ref.case) auto
  qed
qed

text \<open>
  Claim C5. A failed allocation is to be reported as an allocation failure. The code
  tests \<open>result\<close>, the out-parameter, instead of \<open>*result\<close>, the buffer, so the test
  never fires: when \<open>malloc\<close> fails on the two-byte file \<open>f\<close> the call goes on to read
  two bytes into \<open>NULL\<close> and ends in a \<open>Segfault\<close>, not in the return value -2. With a working
  \<open>malloc\<close> the same call returns 2 and the bytes followed by 0.
\<close>

theorem ae_load_malloc_fails:
  "ae_load_file_to_memory [''f'' \<mapsto> [104, 105]] (\<lambda>k. False) (\<lambda>k. k) False ''f'' = Segfault
   \<and> ae_load_file_to_memory [''f'' \<mapsto> [104, 105]] (\<lambda>k. True) (\<lambda>k. k) False ''f''
       = Returns 2 (Live [104, 105, 0]) False"
  by (simp add: ae_load_file_to_memory_def INT_MAX_def ftell_def Let_def)

section \<open>Properties of the symbolic-link functions\<close>

text \<open>
  In the first round of \<open>readlink_malloc\<close> the buffer is still \<open>NULL\<close> when \<open>readlink\<close>
  is called, so the call fails for every link with a non-empty target, and the function
  returns \<open>NULL\<close> as it does for a path that is no link.
\<close>

lemma readlink_malloc_of_link:
  "fs filename = Some target \<Longrightarrow> target \<noteq> [] \<Longrightarrow> readlink_malloc fs filename = Some ReturnsNull"
  by (simp add: readlink_malloc_def readlink_loop.simps readlink_def min_def)

lemma readlink_malloc_of_other:
  "fs filename = None \<Longrightarrow> readlink_malloc fs filename = Some ReturnsNull"
  by (simp add: readlink_malloc_def readlink_loop.simps readlink_def)

text \<open>
  Claim C4. For a link whose target is shorter than 100 bytes the first read is to
  succeed and the target is to be returned. On the link \<open>/a/l1\<close> with the 5-byte target
  \<open>/b/l2\<close> the code returns \<open>NULL\<close>: its first \<open>readlink\<close> is made on the \<open>NULL\<close>
  buffer, before the buffer is allocated, and fails.
\<close>

theorem readlink_malloc_short_target:
  "readlink_malloc [''/a/l1'' \<mapsto> ''/b/l2''] ''/a/l1'' = Some ReturnsNull
   \<and> readlink [''/a/l1'' \<mapsto> ''/b/l2''] ''/a/l1'' None 100 = Some (- 1, None)"
  by (simp add: readlink_malloc_def readlink_loop.simps readlink_def)

text \<open>
  Inside \<open>resolved_path\<close> the call of \<open>readlink_malloc\<close> therefore returns \<open>NULL\<close> on
  every path, and the only \<open>chdir\<close> the function ever makes is the one back to the
  saved directory.
\<close>

lemma readlink_malloc_in_resolved_path:
  "readlink_malloc (link_targets os cwd) p = Some ReturnsNull"
proof (cases "symlinks os cwd p")
  case None
  then have "link_targets os cwd p = None" by (simp add: link_targets_def)
  then show ?thesis by (rule readlink_malloc_of_other)
next
  case (Some t)
  then obtain c cs where "link_targets os cwd p = Some (c # cs)"
    by (cases t) (simp add: link_targets_def)
  then show ?thesis by (rule readlink_malloc_of_link) simp
qed

lemma resolve_loop_one_round:
  "resolve_loop os orig_wd cwd msgs p =
     Some (Inr (case lstat os cwd p of
                  None \<Rightarrow> chdir_and_return os orig_wd cwd (msgs @ [''lstat() failed'']) None
                | Some is_lnk \<Rightarrow>
                    if is_lnk
                    then chdir_and_return os orig_wd cwd (msgs @ [''readlink() failed.'']) None
                    else chdir_and_return os orig_wd cwd msgs (Some p)))"
  by (subst resolve_loop.simps)
    (simp add: readlink_malloc_in_resolved_path split: option.splits)

text \<open>
  Claim C1. For every path, a call of \<open>resolved_path\<close> returns, and it leaves the process
  in the working directory it started in, whether it ends in success or in a failure of
  \<open>getcwd\<close>, \<open>lstat\<close> or \<open>readlink_malloc\<close>; the other failures do not occur, since no
  \<open>chdir\<close> to the directory of a link is reached. The environment is taken to be
  sound in one respect: a successful \<open>chdir\<close> to the name that \<open>getcwd\<close> gave for the
  working directory arrives in that directory.
\<close>

theorem resolved_path_keeps_working_directory:
  "(\<forall>orig_wd wd. getcwd os cwd = Some orig_wd \<and> chdir os cwd orig_wd = Some wd \<longrightarrow> wd = cwd)
   \<longrightarrow> (\<exists>res msgs. resolved_path os cwd path = Some (Inr (res, cwd, msgs)))"
proof
  assume sound: "\<forall>orig_wd wd. getcwd os cwd = Some orig_wd \<and> chdir os cwd orig_wd = Some wd
      \<longrightarrow> wd = cwd"
  show "\<exists>res msgs. resolved_path os cwd path = Some (Inr (res, cwd, msgs))"
  proof (cases "getcwd os cwd")
    case None
    then show ?thesis by (simp add: resolved_path_def)
  next
    case (Some orig_wd)
    have car: "\<exists>ms. chdir_and_return os orig_wd cwd m r = (r, cwd, ms)" for m r
    proof (cases "chdir os cwd orig_wd")
      case None
      then show ?thesis by (simp add: chdir_and_return_def)
    next
      case (Some wd)
      with sound \<open>getcwd os cwd = Some orig_wd\<close> have "wd = cwd" by blast
      with Some show ?thesis by (simp add: chdir_and_return_def)
    qed
    have "\<exists>res msgs. resolve_loop os orig_wd cwd [] path = Some (Inr (res, cwd, msgs))"
      unfolding resolve_loop_one_round
      using car[of "[''lstat() failed'']" None] car[of "[''readlink() failed.'']" None]
        car[of "[]" "Some path"]
      by (auto split: option.splits)
    with Some show ?thesis by (simp add: resolved_path_def)
  qed
qed

text \<open>
  In \<open>one_link\<close> the call on the link \<open>/a/l1\<close> logs the failure of \<open>readlink_malloc\<close>,
  returns \<open>NULL\<close> and leaves the process in \<open>/home\<close>.
\<close>

theorem resolved_path_keeps_working_directory_witness:
  "getcwd one_link ''/home'' = Some ''/home''
   \<and> chdir one_link ''/home'' ''/home'' = Some ''/home''
   \<and> (\<exists>res msgs. resolved_path one_link ''/home'' ''/a/l1'' = Some (Inr (res, ''/home'', msgs)))
   \<and> resolved_path one_link ''/home'' ''/a/l1''
       = Some (Inr (None, ''/home'', [''readlink() failed.'']))"
proof -
  have g: "getcwd one_link ''/home'' = Some ''/home''" by (simp add: one_link_def)
  have c: "chdir one_link ''/home'' ''/home'' = Some ''/home''" by (simp add: one_link_def)
  have sound: "\<forall>orig_wd wd. getcwd one_link ''/home'' = Some orig_wd
      \<and> chdir one_link ''/home'' orig_wd = Some wd \<longrightarrow> wd = ''/home''"
    by (simp add: one_link_def)
  from resolved_path_keeps_working_directory[of one_link "''/home''" "''/a/l1''"] sound
  have e: "\<exists>res msgs. resolved_path one_link ''/home'' ''/a/l1''
      = Some (Inr (res, ''/home'', msgs))" by blast
  have v: "resolved_path one_link ''/home'' ''/a/l1''
       = Some (Inr (None, ''/home'', [''readlink() failed.'']))"
    by (simp add: resolved_path_def resolve_loop_one_round chdir_and_return_def one_link_def)
  from g c e v show ?thesis by blast
qed

end
